theory Spec2Isabelle
  imports Complex_Main "HOL-Library.List_Lexorder"
begin

section \<open>Monthly sales quotas: a shallow embedding of new\_tendency\_analysis.py\<close>

text \<open>
  The development follows the source file top to bottom: the helpers
  (\<open>normalize_name\<close>, \<open>normalize_folio_key\<close>), the delivery split
  (\<open>load_programadas_split_by_exec\<close>), the quota tables (simulation and month), the
  Mexican business calendar and the sanity-check tables with their rollups.

  Conventions of the embedding.
  \<^item> Python \<open>int\<close> and the \<open>int64\<close> columns are \<open>int\<close>; the columns hold counts of rows
    and small quotas, far from the 64-bit range.
  \<^item> A \<open>float\<close> is an exact rational (\<open>rat\<close>). Every float of the modelled code is a
    count, a multiple of one half, or one quotient of two such numbers, so comparisons
    with 0, 1, 6 and 7 and \<open>floor\<close> give the same answer on the rounded quotient as on the
    exact one.
  \<^item> A Python \<open>str\<close> is a list of Unicode code points.
  \<^item> A raised exception is the left injection of a sum type.
  \<^item> A data frame is a list of rows (records); the final \<open>sort_values\<close> of a table,
    which only reorders rows for display, is left out.
\<close>

subsection \<open>Errors\<close>

datatype error = ValueError | IndexError | KeyError

fun collect :: "(error + 'a) list \<Rightarrow> error + 'a list" where
  "collect [] = Inr []"
| "collect (x # xs) =
     (case x of
        Inl e \<Rightarrow> Inl e
      | Inr v \<Rightarrow> (case collect xs of Inl e \<Rightarrow> Inl e | Inr vs \<Rightarrow> Inr (v # vs)))"

subsection \<open>\<open>datetime.date\<close>\<close>

text \<open>
  The proleptic Gregorian calendar of CPython's \<open>datetime\<close> module: a date is a
  triple, its ordinal counts days from 0001-01-01 (ordinal 1), and Monday is weekday 0.
\<close>

record date =
  year :: int
  month :: int
  day :: int

definition is_leap :: "int \<Rightarrow> bool" where
  "is_leap y = (y mod 4 = 0 \<and> (y mod 100 \<noteq> 0 \<or> y mod 400 = 0))"

definition days_in_month :: "int \<Rightarrow> int \<Rightarrow> int" where
  "days_in_month y m =
     (if m = 2 then (if is_leap y then 29 else 28)
      else if m = 4 \<or> m = 6 \<or> m = 9 \<or> m = 11 then 30 else 31)"

definition days_before_year :: "int \<Rightarrow> int" where
  "days_before_year y = (y - 1) * 365 + (y - 1) div 4 - (y - 1) div 100 + (y - 1) div 400"

definition days_before_month :: "int \<Rightarrow> int \<Rightarrow> int" where
  "days_before_month y m =
     [0, 31, 59, 90, 120, 151, 181, 212, 243, 273, 304, 334] ! nat (m - 1)
       + (if m > 2 \<and> is_leap y then 1 else 0)"

definition toordinal :: "date \<Rightarrow> int" where
  "toordinal d = days_before_year (year d) + days_before_month (year d) (month d) + day d"

definition weekday :: "date \<Rightarrow> int" where
  "weekday d = (toordinal d + 6) mod 7"

definition valid_date :: "date \<Rightarrow> bool" where
  "valid_date d =
     (1 \<le> year d \<and> year d \<le> 9999 \<and> 1 \<le> month d \<and> month d \<le> 12
        \<and> 1 \<le> day d \<and> day d \<le> days_in_month (year d) (month d))"

text \<open>The constructor \<open>date(y, m, d)\<close> and \<open>d.replace(day=k)\<close> raise \<open>ValueError\<close>
  on a triple that is not a date.\<close>

definition date_new :: "int \<Rightarrow> int \<Rightarrow> int \<Rightarrow> error + date" where
  "date_new y m d =
     (if valid_date \<lparr>year = y, month = m, day = d\<rparr>
      then Inr \<lparr>year = y, month = m, day = d\<rparr> else Inl ValueError)"

definition replace_day :: "date \<Rightarrow> int \<Rightarrow> error + date" where
  "replace_day d k = date_new (year d) (month d) k"

text \<open>Dates compare as the triples (year, month, day).\<close>

definition date_lt :: "date \<Rightarrow> date \<Rightarrow> bool" where
  "date_lt a b =
     (year a < year b \<or> (year a = year b \<and>
        (month a < month b \<or> (month a = month b \<and> day a < day b))))"

definition date_le :: "date \<Rightarrow> date \<Rightarrow> bool" where
  "date_le a b = (\<not> date_lt b a)"

definition next_day :: "date \<Rightarrow> date" where
  "next_day d =
     (if day d < days_in_month (year d) (month d) then d\<lparr>day := day d + 1\<rparr>
      else if month d < 12 then \<lparr>year = year d, month = month d + 1, day = 1\<rparr>
      else \<lparr>year = year d + 1, month = 1, day = 1\<rparr>)"

text \<open>\<open>pd.date_range(start, end, freq="D")\<close>: the days from \<open>start\<close> to \<open>end\<close>, both
  included; empty when \<open>end\<close> is before \<open>start\<close>.\<close>

fun days_from :: "date \<Rightarrow> nat \<Rightarrow> date list" where
  "days_from d 0 = []"
| "days_from d (Suc n) = d # days_from (next_day d) n"

definition date_range :: "date \<Rightarrow> date \<Rightarrow> date list" where
  "date_range s e = days_from s (nat (toordinal e - toordinal s + 1))"

subsection \<open>Python strings over a Unicode character database\<close>

text \<open>
  A \<open>str\<close> is a list of code points. The methods \<open>strip\<close>, \<open>split\<close>, \<open>upper\<close>,
  \<open>lower\<close>, \<open>isdigit\<close> and the functions of \<open>unicodedata\<close> read the Unicode
  Character Database, which is not part of the repository: it is a parameter \<open>U\<close> of
  the model. \<open>toupper\<close> and \<open>tolower\<close> are the full case mappings of one code point
  (\<open>str.upper\<close> maps code point by code point; the model does the same for \<open>str.lower\<close>,
  whose one contextual rule, the final sigma, yields no ASCII letter),
  \<open>decomposition\<close> is the full compatibility decomposition of one code point and
  \<open>combining\<close> its canonical combining class.
\<close>

type_synonym pystr = "nat list"

record ucd =
  isspace :: "nat \<Rightarrow> bool"
  isdigit :: "nat \<Rightarrow> bool"
  toupper :: "nat \<Rightarrow> pystr"
  tolower :: "nat \<Rightarrow> pystr"
  decomposition :: "nat \<Rightarrow> pystr"
  combining :: "nat \<Rightarrow> nat"

definition py :: "string \<Rightarrow> pystr" where
  "py s = map of_char s"

definition strip :: "ucd \<Rightarrow> pystr \<Rightarrow> pystr" where
  "strip U s = rev (dropWhile (isspace U) (rev (dropWhile (isspace U) s)))"

definition upper :: "ucd \<Rightarrow> pystr \<Rightarrow> pystr" where
  "upper U s = concat (map (toupper U) s)"

definition lower :: "ucd \<Rightarrow> pystr \<Rightarrow> pystr" where
  "lower U s = concat (map (tolower U) s)"

text \<open>\<open>s.split()\<close>: the maximal runs of characters that are not whitespace.\<close>

fun split_run :: "ucd \<Rightarrow> pystr \<Rightarrow> pystr \<Rightarrow> pystr list" where
  "split_run U cur [] = (if cur = [] then [] else [cur])"
| "split_run U cur (c # cs) =
     (if isspace U c then (if cur = [] then split_run U [] cs else cur # split_run U [] cs)
      else split_run U (cur @ [c]) cs)"

definition split :: "ucd \<Rightarrow> pystr \<Rightarrow> pystr list" where
  "split U s = split_run U [] s"

fun join :: "pystr \<Rightarrow> pystr list \<Rightarrow> pystr" where
  "join sep [] = []"
| "join sep [w] = w"
| "join sep (w # ws) = w @ sep @ join sep ws"

text \<open>\<open>unicodedata.normalize("NFKD", s)\<close>: every code point is replaced by its full
  compatibility decomposition, then every maximal run of marks (combining class not 0)
  is sorted by combining class, marks of one class keeping their order.\<close>

fun canonical_order :: "ucd \<Rightarrow> pystr \<Rightarrow> pystr \<Rightarrow> pystr" where
  "canonical_order U run [] = sort_key (combining U) run"
| "canonical_order U run (c # cs) =
     (if combining U c = 0 then sort_key (combining U) run @ c # canonical_order U [] cs
      else canonical_order U (run @ [c]) cs)"

definition nfkd :: "ucd \<Rightarrow> pystr \<Rightarrow> pystr" where
  "nfkd U s = canonical_order U [] (concat (map (decomposition U) s))"

definition isdigit_str :: "ucd \<Rightarrow> pystr \<Rightarrow> bool" where
  "isdigit_str U s = (s \<noteq> [] \<and> list_all (isdigit U) s)"

definition endswith :: "pystr \<Rightarrow> pystr \<Rightarrow> bool" where
  "endswith s suf = (length suf \<le> length s \<and> drop (length s - length suf) s = suf)"

text \<open>\<open>s.strip(chars)\<close> and \<open>s.split(sep, 1)\<close> for a separator of one character
  that occurs in \<open>s\<close>.\<close>

definition strip_chars :: "pystr \<Rightarrow> pystr \<Rightarrow> pystr" where
  "strip_chars cs s =
     rev (dropWhile (\<lambda>c. c \<in> set cs) (rev (dropWhile (\<lambda>c. c \<in> set cs) s)))"

definition split_first :: "nat \<Rightarrow> pystr \<Rightarrow> pystr \<times> pystr" where
  "split_first c s = (takeWhile (\<lambda>x. x \<noteq> c) s, drop 1 (dropWhile (\<lambda>x. x \<noteq> c) s))"

subsection \<open>The helpers \<open>normalize_name\<close> and \<open>normalize_folio_key\<close>\<close>

text \<open>The argument is \<open>None\<close> or a value whose \<open>str()\<close> is the given text.\<close>

definition normalize_name :: "ucd \<Rightarrow> pystr option \<Rightarrow> pystr" where
  "normalize_name U x =
     (let s = (case x of None \<Rightarrow> [] | Some t \<Rightarrow> t);
          s = upper U (strip U s);
          s = join (py '' '') (split U s);
          s = nfkd U s
      in filter (\<lambda>c. \<not> (combining U c \<noteq> 0)) s)"

definition normalize_folio_key :: "ucd \<Rightarrow> pystr option \<Rightarrow> pystr" where
  "normalize_folio_key U x =
     (case x of
        None \<Rightarrow> []
      | Some t \<Rightarrow>
          (let s = strip U t in
           if s = [] \<or> lower U s = py ''nan'' \<or> lower U s = py ''none'' then []
           else if endswith s (py ''.0'') \<and> isdigit_str U (take (length s - 2) s)
             then take (length s - 2) s
           else if 46 \<in> set s \<and> isdigit_str U (fst (split_first 46 s))
                     \<and> strip_chars (py ''0'') (snd (split_first 46 s)) = []
             then fst (split_first 46 s)
           else s))"

subsection \<open>The character database below code point 256\<close>

text \<open>
  The Unicode Character Database (version 14, the one of CPython 3.11) on the code
  points below 256, together with the marks and letters that these code points map or
  decompose to. \<open>isspace\<close> lists all whitespace of Unicode. Every other code point is
  left caseless, undecomposed and of class 0, so \<open>latin1\<close> stands for the real database
  on strings of code points below 256 only.
\<close>

definition latin1_decomposition :: "(nat \<times> pystr) list" where
  "latin1_decomposition =
     [(160, [32]), (168, [32, 776]), (170, [97]), (175, [32, 772]), (178, [50]),
      (179, [51]), (180, [32, 769]), (181, [956]), (184, [32, 807]), (185, [49]),
      (186, [111]), (188, [49, 8260, 52]), (189, [49, 8260, 50]), (190, [51, 8260, 52]),
      (192, [65, 768]), (193, [65, 769]), (194, [65, 770]), (195, [65, 771]),
      (196, [65, 776]), (197, [65, 778]), (199, [67, 807]), (200, [69, 768]),
      (201, [69, 769]), (202, [69, 770]), (203, [69, 776]), (204, [73, 768]),
      (205, [73, 769]), (206, [73, 770]), (207, [73, 776]), (209, [78, 771]),
      (210, [79, 768]), (211, [79, 769]), (212, [79, 770]), (213, [79, 771]),
      (214, [79, 776]), (217, [85, 768]), (218, [85, 769]), (219, [85, 770]),
      (220, [85, 776]), (221, [89, 769]), (224, [97, 768]), (225, [97, 769]),
      (226, [97, 770]), (227, [97, 771]), (228, [97, 776]), (229, [97, 778]),
      (231, [99, 807]), (232, [101, 768]), (233, [101, 769]), (234, [101, 770]),
      (235, [101, 776]), (236, [105, 768]), (237, [105, 769]), (238, [105, 770]),
      (239, [105, 776]), (241, [110, 771]), (242, [111, 768]), (243, [111, 769]),
      (244, [111, 770]), (245, [111, 771]), (246, [111, 776]), (249, [117, 768]),
      (250, [117, 769]), (251, [117, 770]), (252, [117, 776]), (253, [121, 769]),
      (255, [121, 776]), (376, [89, 776])]"

definition latin1 :: ucd where
  "latin1 =
     \<lparr>isspace = (\<lambda>c. c \<in> set [9, 10, 11, 12, 13, 28, 29, 30, 31, 32, 133, 160, 5760,
                    8192, 8193, 8194, 8195, 8196, 8197, 8198, 8199, 8200, 8201, 8202,
                    8232, 8233, 8239, 8287, 12288]),
      isdigit = (\<lambda>c. (48 \<le> c \<and> c \<le> 57) \<or> c = 178 \<or> c = 179 \<or> c = 185),
      toupper = (\<lambda>c. if (97 \<le> c \<and> c \<le> 122) \<or> (224 \<le> c \<and> c \<le> 254 \<and> c \<noteq> 247)
                      then [c - 32]
                    else if c = 181 then [924]
                    else if c = 223 then [83, 83]
                    else if c = 255 then [376]
                    else if c = 956 then [924]
                    else [c]),
      tolower = (\<lambda>c. if (65 \<le> c \<and> c \<le> 90) \<or> (192 \<le> c \<and> c \<le> 222 \<and> c \<noteq> 215)
                      then [c + 32]
                    else if c = 376 then [255]
                    else if c = 924 then [956]
                    else [c]),
      decomposition = (\<lambda>c. case map_of latin1_decomposition c of
                              None \<Rightarrow> [c] | Some d \<Rightarrow> d),
      combining = (\<lambda>c. if c \<in> set [768, 769, 770, 771, 772, 776, 778] then 230
                        else if c = 807 then 202 else 0)\<rparr>"

subsection \<open>The delivery split: \<open>load_programadas_split_by_exec\<close>\<close>

text \<open>
  A cell read from SQL is \<open>None\<close>, a float NaN, or a value given by its \<open>str()\<close> text.
  \<open>astype(str)\<close> turns the first two into the texts \<open>None\<close> and \<open>nan\<close>.
\<close>

datatype cell = PyNone | NaN | Val pystr

fun astype_str :: "cell \<Rightarrow> pystr" where
  "astype_str PyNone = py ''None''"
| "astype_str NaN = py ''nan''"
| "astype_str (Val s) = s"

record prog_row =
  VENDEDOR :: cell
  ESTATUS :: cell
  VENTA :: cell

fun venta_vacia :: "ucd \<Rightarrow> cell \<Rightarrow> bool" where
  "venta_vacia U PyNone = True"
| "venta_vacia U NaN = True"
| "venta_vacia U (Val x) =
     (let s = strip U x in s = [] \<or> lower U s = py ''nan'' \<or> lower U s = py ''none'')"

definition est_norm :: "ucd \<Rightarrow> prog_row \<Rightarrow> pystr" where
  "est_norm U r = normalize_name U (Some (strip U (astype_str (ESTATUS r))))"

definition is_transito :: "ucd \<Rightarrow> prog_row \<Rightarrow> bool" where
  "is_transito U r =
     (est_norm U r \<in> {py ''EN ENTREGA'', py ''EN PREPARACION'', py ''SOLICITADO'',
                        py ''BACK OFFICE''}
      \<or> (est_norm U r = py ''ENTREGADO'' \<and> venta_vacia U (VENTA r)))"

definition is_canc :: "ucd \<Rightarrow> prog_row \<Rightarrow> bool" where
  "is_canc U r = (est_norm U r = py ''CANC ERROR'')"

record split_row =
  g_VENDEDOR :: pystr
  hechas_mes :: int
  transito_mes :: int
  total_mes :: int
  VEN_NORM :: pystr

text \<open>The frame \<open>out\<close> has one row per kept record: the seller and the two 0/1 columns.
  \<open>groupby("VENDEDOR")\<close> gives one row per distinct seller, in sorted order, with the
  sums of the two columns.\<close>

definition load_programadas_split_by_exec :: "ucd \<Rightarrow> prog_row list \<Rightarrow> split_row list" where
  "load_programadas_split_by_exec U df =
     (if df = [] then []
      else
        (let kept = filter (\<lambda>r. \<not> is_canc U r) df;
             out = map (\<lambda>r. (strip U (astype_str (VENDEDOR r)),
                              (if is_transito U r then 1 else 0 :: int),
                              (if \<not> is_transito U r then 1 else 0 :: int))) kept
         in map (\<lambda>k.
                  (let grp = filter (\<lambda>w. fst w = k) out;
                       h = sum_list (map (\<lambda>w. snd (snd w)) grp);
                       t = sum_list (map (\<lambda>w. fst (snd w)) grp)
                   in \<lparr>g_VENDEDOR = k, hechas_mes = h, transito_mes = t, total_mes = h + t,
                       VEN_NORM = normalize_name U (Some k)\<rparr>))
                (sort (remdups (map fst out)))))"

subsection \<open>The rolling average and the quota\<close>

text \<open>The numpy operations of the two quota sections, on one row of the month matrix
  (the code applies them to all rows at once along axis 1) and on columns.\<close>

definition np_any :: "bool list \<Rightarrow> bool" where
  "np_any bs = (True \<in> set bs)"

text \<open>\<open>argmax\<close> is the first position of the maximum and fails on an empty row.\<close>

definition np_argmax :: "bool list \<Rightarrow> error + nat" where
  "np_argmax bs =
     (if bs = [] then Inl ValueError
      else Inr (length (takeWhile (\<lambda>b. b \<noteq> Max (set bs)) bs)))"

fun cumsum_from :: "int \<Rightarrow> int list \<Rightarrow> int list" where
  "cumsum_from acc [] = []"
| "cumsum_from acc (x # xs) = (acc + x) # cumsum_from (acc + x) xs"

definition np_cumsum :: "int list \<Rightarrow> int list" where
  "np_cumsum xs = cumsum_from 0 xs"

definition np_where :: "bool list \<Rightarrow> 'a list \<Rightarrow> 'a list \<Rightarrow> 'a list" where
  "np_where c xs ys = map (\<lambda>(b, x, y). if b then x else y) (zip c (zip xs ys))"

text \<open>A float column cast by \<open>astype(int)\<close> is truncated toward zero.\<close>

definition astype_int :: "rat \<Rightarrow> int" where
  "astype_int x = (if 0 \<le> x then \<lfloor>x\<rfloor> else \<lceil>x\<rceil>)"

text \<open>The average of one executive: \<open>has_nz\<close> and the entry of \<open>avg3\<close>
  (\<open>has_nonzero\<close> and \<open>avg_active\<close> in the simulation).\<close>

definition prom_row :: "int list \<Rightarrow> error + bool \<times> rat" where
  "prom_row win =
     (let nz = map (\<lambda>v. v > 0) win;
          has_nz = np_any nz
      in case np_argmax nz of
           Inl e \<Rightarrow> Inl e
         | Inr am \<Rightarrow>
             (let first_i = (if has_nz then am else 0);
                  suff = rev (np_cumsum (rev win))
              in if first_i < length suff
                 then (let ssum = suff ! first_i;
                           cnt = (of_nat (length win - first_i) :: rat);
                           avg3 = of_int ssum / cnt
                       in Inr (has_nz, if has_nz then avg3 else 0))
                 else Inl IndexError))"

text \<open>The nested \<open>np.where\<close> of both quota sections, on the tenure and average columns.\<close>

definition meta_mes :: "int list \<Rightarrow> rat list \<Rightarrow> int list" where
  "meta_mes ten prom =
     map astype_int
       (np_where (map (\<lambda>t. t < 41) ten)
          (replicate (length ten) 6)
          (np_where (map (\<lambda>p. p \<ge> 7) prom)
             (map (\<lambda>p. of_int \<lfloor>p\<rfloor> + 1) prom)
             (np_where (map (\<lambda>p. p \<ge> 6) prom)
                (map (\<lambda>p. of_int \<lfloor>p\<rfloor> + 2) prom)
                (replicate (length prom) 7))))"

text \<open>Days between the effective start date and the reference day; a missing date
  (\<open>NaT\<close>) gives 0 by \<open>fillna(0)\<close>, a negative difference gives 0 by \<open>clip(lower=0)\<close>.\<close>

definition tenure_days :: "date \<Rightarrow> date option \<Rightarrow> int" where
  "tenure_days ref_day fd =
     (case fd of None \<Rightarrow> 0 | Some d \<Rightarrow> max 0 (toordinal ref_day - toordinal d))"

datatype status = ACTIVO | BAJA

subsection \<open>Section 3: the quotas of the month (\<open>df_metas_view\<close>)\<close>

text \<open>
  One executive of \<open>df_metas\<close> as the joins and the pivot leave it: name, supervisor
  and centre after \<open>fillna\<close>, the zero-filled counts of the window months in
  chronological order, the number of sales in the selected month, and the effective
  start date found by \<open>_get_ingreso_dt_for_norm\<close>. Counts are sizes of groups of rows.
\<close>

record exec_in =
  ej_EJECUTIVO :: pystr
  ej_Supervisor :: pystr
  ej_CentroKey :: pystr
  ej_ventas :: "nat list"
  ej_ventas_mes :: nat
  ej_ingreso :: "date option"

record metas_row =
  EJECUTIVO :: pystr
  Supervisor :: pystr
  CentroKey :: pystr
  m_status :: status
  dias_activo_al_1ro :: int
  last3 :: "int list"
  prom_ult_3m :: rat
  meta_mes_actual :: int

definition status_of :: "int \<Rightarrow> status" where
  "status_of n = (if n > 0 then ACTIVO else BAJA)"

text \<open>The selected month is the pair of the year and the month of the key \<open>YYYY-MM\<close>.
  An empty result stands for \<open>st.stop()\<close>: no table is produced.\<close>

definition df_metas_view :: "int \<times> int \<Rightarrow> exec_in list \<Rightarrow> error + metas_row list" where
  "df_metas_view meta_month_key df =
     (let act = filter (\<lambda>e. status_of (int (ej_ventas_mes e)) = ACTIVO) df
      in if act = [] then Inr []
         else
           (case date_new (fst meta_month_key) (snd meta_month_key) 1 of
              Inl e \<Rightarrow> Inl e
            | Inr ref_day \<Rightarrow>
               (let ten = map (\<lambda>e. tenure_days ref_day (ej_ingreso e)) act
                in case collect (map (\<lambda>e. prom_row (map int (ej_ventas e))) act) of
                     Inl e \<Rightarrow> Inl e
                   | Inr avg \<Rightarrow>
                      (let prom = map snd avg;
                           meta = meta_mes ten prom
                       in Inr (map (\<lambda>i.
                                 \<lparr>EJECUTIVO = ej_EJECUTIVO (act ! i),
                                  Supervisor = ej_Supervisor (act ! i),
                                  CentroKey = ej_CentroKey (act ! i),
                                  m_status = ACTIVO,
                                  dias_activo_al_1ro = ten ! i,
                                  last3 = map int (ej_ventas (act ! i)),
                                  prom_ult_3m = prom ! i,
                                  meta_mes_actual = meta ! i\<rparr>)
                               [0..<length act])))))"

subsection \<open>Section 2: the simulation (\<open>df_sim\<close>)\<close>

record sim_row =
  s_EJECUTIVO :: pystr
  s_Supervisor :: pystr
  s_status :: status
  s_dias_activo_al_1ro :: int
  s_meses :: "int list"
  s_Total_ventas :: int
  s_Promedio_ventas_meses :: rat
  meta_simulacion :: int

text \<open>The reference day is the first day of the month after the last month of the
  interval. The status reads the column of that last month.\<close>

definition ref_day_sim :: "int \<times> int \<Rightarrow> error + date" where
  "ref_day_sim last_month_interval =
     (case date_new (fst last_month_interval) (snd last_month_interval) 1 of
        Inl e \<Rightarrow> Inl e
      | Inr d \<Rightarrow>
          (if month d < 12 then date_new (year d) (month d + 1) 1
           else date_new (year d + 1) 1 1))"

definition df_sim :: "int \<times> int \<Rightarrow> exec_in list \<Rightarrow> error + sim_row list \<times> int" where
  "df_sim last_month_interval df =
     (if df = [] then Inr ([], 0)
      else
        (case collect (map (\<lambda>e. prom_row (map int (ej_ventas e))) df) of
           Inl e \<Rightarrow> Inl e
         | Inr avg \<Rightarrow>
            (if list_ex (\<lambda>e. ej_ventas e = []) df then Inl KeyError
             else
               (let stat = map (\<lambda>e. status_of (int (last (ej_ventas e)))) df
                in case ref_day_sim last_month_interval of
                     Inl e \<Rightarrow> Inl e
                   | Inr ref_day \<Rightarrow>
                      (let ten_sim = map (\<lambda>e. tenure_days ref_day (ej_ingreso e)) df;
                           prom_sim = map snd avg;
                           meta0 = meta_mes ten_sim prom_sim;
                           meta = map (\<lambda>i. if stat ! i = BAJA then 0 else meta0 ! i)
                                    [0..<length df];
                           meta_total_all = sum_list meta
                       in Inr (map (\<lambda>i.
                                 \<lparr>s_EJECUTIVO = ej_EJECUTIVO (df ! i),
                                  s_Supervisor = ej_Supervisor (df ! i),
                                  s_status = stat ! i,
                                  s_dias_activo_al_1ro = ten_sim ! i,
                                  s_meses = map int (ej_ventas (df ! i)),
                                  s_Total_ventas = sum_list (map int (ej_ventas (df ! i))),
                                  s_Promedio_ventas_meses = prom_sim ! i,
                                  meta_simulacion = meta ! i\<rparr>)
                               [0..<length df], meta_total_all))))))"

subsection \<open>The formulas of the specification\<close>

text \<open>The decision table of the quota policy, first matching rule first.\<close>

definition quota_policy :: "int \<Rightarrow> rat \<Rightarrow> int" where
  "quota_policy tenure prom =
     (if tenure < 41 then 6
      else if prom \<ge> 7 then \<lfloor>prom\<rfloor> + 1
      else if prom \<ge> 6 then \<lfloor>prom\<rfloor> + 2
      else 7)"

text \<open>The leading-zero-suppressed average: the index of the first month with a
  nonzero count, and the sum from there to the end over the number of those months.\<close>

fun first_nonzero :: "nat list \<Rightarrow> nat" where
  "first_nonzero [] = 0"
| "first_nonzero (c # cs) = (if c \<noteq> 0 then 0 else Suc (first_nonzero cs))"

definition rolling_average :: "nat list \<Rightarrow> rat" where
  "rolling_average counts =
     (if list_all (\<lambda>c. c = 0) counts then 0
      else of_nat (sum_list (drop (first_nonzero counts) counts))
             / of_nat (length counts - first_nonzero counts))"

subsection \<open>Sample inputs\<close>

definition ana :: exec_in where
  "ana = \<lparr>ej_EJECUTIVO = py ''ANA'', ej_Supervisor = py ''LUZ'', ej_CentroKey = py ''JV'',
          ej_ventas = [0, 7, 6], ej_ventas_mes = 2,
          ej_ingreso = Some \<lparr>year = 2025, month = 3, day = 10\<rparr>\<rparr>"

definition beto :: exec_in where
  "beto = \<lparr>ej_EJECUTIVO = py ''BETO'', ej_Supervisor = py ''LUZ'', ej_CentroKey = py ''CC2'',
           ej_ventas = [9, 8, 0], ej_ventas_mes = 0,
           ej_ingreso = Some \<lparr>year = 2024, month = 1, day = 15\<rparr>\<rparr>"

definition ana_row :: metas_row where
  "ana_row = \<lparr>EJECUTIVO = py ''ANA'', Supervisor = py ''LUZ'', CentroKey = py ''JV'',
              m_status = ACTIVO, dias_activo_al_1ro = 297, last3 = [0, 7, 6],
              prom_ult_3m = 13 / 2, meta_mes_actual = 8\<rparr>"

definition ana_sim :: sim_row where
  "ana_sim = \<lparr>s_EJECUTIVO = py ''ANA'', s_Supervisor = py ''LUZ'', s_status = ACTIVO,
              s_dias_activo_al_1ro = 297, s_meses = [0, 7, 6], s_Total_ventas = 13,
              s_Promedio_ventas_meses = 13 / 2, meta_simulacion = 8\<rparr>"

definition beto_sim :: sim_row where
  "beto_sim = \<lparr>s_EJECUTIVO = py ''BETO'', s_Supervisor = py ''LUZ'', s_status = BAJA,
               s_dias_activo_al_1ro = 717, s_meses = [9, 8, 0], s_Total_ventas = 17,
               s_Promedio_ventas_meses = 17 / 3, meta_simulacion = 0\<rparr>"

subsection \<open>The classification of delivery records, in the words of the specification\<close>

definition seller :: "ucd \<Rightarrow> prog_row \<Rightarrow> pystr" where
  "seller U r = strip U (astype_str (VENDEDOR r))"

text \<open>A blank sale amount: null, empty, or the text \<open>nan\<close> or \<open>none\<close> in any case,
  after trimming.\<close>

definition venta_blank :: "ucd \<Rightarrow> cell \<Rightarrow> bool" where
  "venta_blank U x =
     (case x of
        PyNone \<Rightarrow> True
      | NaN \<Rightarrow> True
      | Val t \<Rightarrow> strip U t = [] \<or> lower U (strip U t) \<in> {py ''nan'', py ''none''})"

text \<open>In transit by exact match of the normalized status.\<close>

definition exact_in_transit :: "ucd \<Rightarrow> prog_row \<Rightarrow> bool" where
  "exact_in_transit U r =
     (est_norm U r = py ''EN ENTREGA'' \<or> est_norm U r = py ''EN PREPARACION''
      \<or> est_norm U r = py ''SOLICITADO'' \<or> est_norm U r = py ''BACK OFFICE''
      \<or> (est_norm U r = py ''ENTREGADO'' \<and> venta_blank U (VENTA r)))"




definition entrega_parcial :: prog_row where
  "entrega_parcial =
     \<lparr>VENDEDOR = Val (py ''Ana''), ESTATUS = Val (py ''En entrega parcial''),
      VENTA = Val (py ''350'')\<rparr>"

definition en_entrega :: prog_row where
  "en_entrega =
     \<lparr>VENDEDOR = Val (py ''Ana''), ESTATUS = Val (py ''En entrega''), VENTA = Val (py ''350'')\<rparr>"

definition entregado_sin_venta :: prog_row where
  "entregado_sin_venta =
     \<lparr>VENDEDOR = Val (py ''Ana''), ESTATUS = Val (py ''Entregado''), VENTA = Val (py '' NaN '')\<rparr>"

definition entregado :: prog_row where
  "entregado =
     \<lparr>VENDEDOR = Val (py ''Ana''), ESTATUS = Val (py ''Entregado''), VENTA = Val (py ''350'')\<rparr>"

definition canc_error :: prog_row where
  "canc_error =
     \<lparr>VENDEDOR = Val (py ''Ana''), ESTATUS = Val (py ''Canc Error''), VENTA = PyNone\<rparr>"

subsection \<open>The join key, in the words of the specification\<close>

text \<open>The rule as the specification states it: the second case asks only for a
  decimal point followed by zeros.\<close>

definition join_key_as_stated :: "ucd \<Rightarrow> pystr option \<Rightarrow> pystr" where
  "join_key_as_stated U x =
     (case x of
        None \<Rightarrow> []
      | Some t \<Rightarrow>
          (let s = strip U t;
               whole = takeWhile (\<lambda>c. c \<noteq> 46) s;
               fraction = drop (Suc (length whole)) s
           in if s = [] \<or> lower U s \<in> {py ''nan'', py ''none''} then []
              else if endswith s (py ''.0'') \<and> isdigit_str U (take (length s - 2) s)
                then take (length s - 2) s
              else if 46 \<in> set s \<and> list_all (\<lambda>c. c = 48) fraction then whole
              else s))"

text \<open>The rule with the second case restricted to an all-digit part before the
  point.\<close>

definition join_key_amended :: "ucd \<Rightarrow> pystr option \<Rightarrow> pystr" where
  "join_key_amended U x =
     (case x of
        None \<Rightarrow> []
      | Some t \<Rightarrow>
          (let s = strip U t;
               whole = takeWhile (\<lambda>c. c \<noteq> 46) s;
               fraction = drop (Suc (length whole)) s
           in if s = [] \<or> lower U s \<in> {py ''nan'', py ''none''} then []
              else if endswith s (py ''.0'') \<and> isdigit_str U (take (length s - 2) s)
                then take (length s - 2) s
              else if 46 \<in> set s \<and> isdigit_str U whole \<and> list_all (\<lambda>c. c = 48) fraction
                then whole
              else s))"

subsection \<open>Characters on which \<open>normalize_name\<close> is stable\<close>

text \<open>A code point that \<open>normalize_name\<close> leaves as it is: not whitespace, not a
  mark, its own upper case and its own decomposition.\<close>

definition stable_char :: "ucd \<Rightarrow> nat \<Rightarrow> bool" where
  "stable_char U e =
     (\<not> isspace U e \<and> combining U e = 0 \<and> toupper U e = [e] \<and> decomposition U e = [e])"

text \<open>A plain code point: each code point of its upper case is whitespace, or
  decomposes into marks and stable code points, at least one of them stable.\<close>

definition plain_char :: "ucd \<Rightarrow> nat \<Rightarrow> bool" where
  "plain_char U c =
     list_all (\<lambda>d. isspace U d
                 \<or> (list_ex (\<lambda>e. combining U e = 0) (decomposition U d)
                    \<and> list_all (\<lambda>e. combining U e \<noteq> 0 \<or> stable_char U e)
                         (decomposition U d)))
       (toupper U c)"

text \<open>What every character database says of the space character.\<close>

definition space_ok :: "ucd \<Rightarrow> bool" where
  "space_ok U =
     (isspace U 32 \<and> toupper U 32 = [32] \<and> decomposition U 32 = [32] \<and> combining U 32 = 0)"

definition jose_raw :: pystr where
  "jose_raw = py ''  jos'' @ [233] @ py ''   P'' @ [201] @ py ''rez ''"

section \<open>Properties\<close>

subsection \<open>Facts about the numpy helpers\<close>

lemma collect_length: "collect xs = Inr ys \<Longrightarrow> length ys = length xs"
  by (induction xs arbitrary: ys) (auto split: sum.splits)

lemma collect_nth: "collect xs = Inr ys \<Longrightarrow> i < length xs \<Longrightarrow> xs ! i = Inr (ys ! i)"
proof (induction xs arbitrary: ys i)
  case Nil
  then show ?case by simp
next
  case (Cons x xs)
  then show ?case by (cases i) (auto split: sum.splits)
qed

lemma astype_int_of_int: "astype_int (of_int k) = k"
  by (simp add: astype_int_def)

lemma astype_int_floor_add:
  "astype_int (of_int \<lfloor>p\<rfloor> + 1) = \<lfloor>p\<rfloor> + 1"
  "astype_int (of_int \<lfloor>p\<rfloor> + 2) = \<lfloor>p\<rfloor> + 2"
  using astype_int_of_int [of "\<lfloor>p\<rfloor> + 1"] astype_int_of_int [of "\<lfloor>p\<rfloor> + 2"]
  by simp_all

lemma astype_int_6_7: "astype_int 6 = 6" "astype_int 7 = 7"
  using astype_int_of_int [of 6] astype_int_of_int [of 7] by simp_all

lemma meta_mes_nth:
  assumes "length prom = length ten" "i < length ten"
  shows "meta_mes ten prom ! i = quota_policy (ten ! i) (prom ! i)"
  using assms
  by (simp add: meta_mes_def np_where_def quota_policy_def astype_int_floor_add
      astype_int_6_7)

lemma np_argmax_bool:
  assumes "bs \<noteq> []"
  shows "np_argmax bs = Inr (if True \<in> set bs then length (takeWhile Not bs) else 0)"
proof (cases "True \<in> set bs")
  case True
  then have "Max (set bs) = True"
    by (metis List.finite_set Max_ge le_boolD)
  then have "(\<lambda>b. b \<noteq> Max (set bs)) = Not" by auto
  with assms True show ?thesis by (simp add: np_argmax_def)
next
  case False
  then have all: "\<forall>b \<in> set bs. b = False" by auto
  with assms have "Max (set bs) = False"
    by (metis List.finite_set Max_in set_empty)
  then have "takeWhile (\<lambda>b. b \<noteq> Max (set bs)) bs = []"
    using assms all by (cases bs) auto
  with assms False show ?thesis by (simp add: np_argmax_def)
qed

lemma cumsum_from_length: "length (cumsum_from acc xs) = length xs"
  by (induction xs arbitrary: acc) auto

lemma cumsum_from_nth:
  "j < length xs \<Longrightarrow> cumsum_from acc xs ! j = acc + sum_list (take (Suc j) xs)"
proof (induction xs arbitrary: acc j)
  case Nil
  then show ?case by simp
next
  case (Cons x xs)
  then show ?case by (cases j) (auto simp: add.assoc)
qed

text \<open>Reversing, accumulating and reversing again gives the suffix sums.\<close>

lemma suffix_sum_nth:
  assumes "i < length xs"
  shows "rev (np_cumsum (rev xs)) ! i = sum_list (drop i xs)"
proof -
  have "rev (np_cumsum (rev xs)) ! i = np_cumsum (rev xs) ! (length xs - Suc i)"
    using assms by (simp add: rev_nth np_cumsum_def cumsum_from_length)
  also have "\<dots> = sum_list (take (length xs - i) (rev xs))"
    using assms by (simp add: np_cumsum_def cumsum_from_nth Suc_diff_Suc)
  also have "take (length xs - i) (rev xs) = rev (drop i xs)"
    by (simp add: rev_drop)
  finally show ?thesis by simp
qed

lemma first_nonzero_takeWhile:
  "length (takeWhile Not (map (\<lambda>v. v > 0) (map int counts))) = first_nonzero counts"
  by (induction counts) auto

lemma first_nonzero_less:
  "\<not> list_all (\<lambda>c. c = 0) counts \<Longrightarrow> first_nonzero counts < length counts"
  by (induction counts) auto

text \<open>\<open>first_nonzero\<close> is the least index of a nonzero count.\<close>

lemma first_nonzero_least:
  "\<not> list_all (\<lambda>c. c = 0) counts \<Longrightarrow>
     counts ! first_nonzero counts \<noteq> 0 \<and> (\<forall>j < first_nonzero counts. counts ! j = 0)"
proof (induction counts)
  case Nil
  then show ?case by simp
next
  case (Cons c cs)
  then show ?case by (auto simp: nth_Cons split: nat.splits)
qed

lemma sum_list_int: "sum_list (map int xs) = int (sum_list xs)"
  by (induction xs) auto

lemma prom_row_eq:
  assumes "counts \<noteq> []"
  shows "prom_row (map int counts)
           = Inr (\<not> list_all (\<lambda>c. c = 0) counts, rolling_average counts)"
proof -
  let ?nz = "map (\<lambda>v. v > 0) (map int counts)"
  have any: "np_any ?nz = (\<not> list_all (\<lambda>c. c = 0) counts)"
    by (auto simp: np_any_def list_all_iff)
  have am: "np_argmax ?nz = Inr (if np_any ?nz then first_nonzero counts else 0)"
  proof -
    have ne: "?nz \<noteq> []" using assms by simp
    have tw: "length (takeWhile Not ?nz) = first_nonzero counts"
      by (rule first_nonzero_takeWhile)
    show ?thesis by (simp only: np_argmax_bool [OF ne] np_any_def tw)
  qed
  show ?thesis
  proof (cases "list_all (\<lambda>c. c = 0) counts")
    case True
    with assms any am show ?thesis
      by (simp add: prom_row_def rolling_average_def np_cumsum_def cumsum_from_length
          Let_def)
  next
    case False
    then have lt: "first_nonzero counts < length counts" by (rule first_nonzero_less)
    then have "rev (np_cumsum (rev (map int counts))) ! first_nonzero counts
                 = int (sum_list (drop (first_nonzero counts) counts))"
      using suffix_sum_nth [of "first_nonzero counts" "map int counts"]
      by (simp add: drop_map sum_list_int)
    with False lt any am show ?thesis
      by (simp add: prom_row_def rolling_average_def np_cumsum_def cumsum_from_length
          Let_def)
  qed
qed

lemma prom_row_empty: "prom_row [] = Inl ValueError"
  by (simp add: prom_row_def np_argmax_def)

lemma prom_row_Inr:
  assumes "prom_row (map int counts) = Inr (hn, p)"
  shows "counts \<noteq> [] \<and> hn = (\<not> list_all (\<lambda>c. c = 0) counts) \<and> p = rolling_average counts"
proof (cases "counts = []")
  case True
  with assms show ?thesis by (simp add: prom_row_empty)
next
  case False
  with assms prom_row_eq [OF False] show ?thesis by simp
qed

subsection \<open>The rows of the two quota tables\<close>

lemma df_metas_view_row:
  assumes "df_metas_view mk df = Inr rows" "r \<in> set rows"
  shows "\<exists>e ref_day. e \<in> set df \<and> ej_ventas_mes e > 0
           \<and> date_new (fst mk) (snd mk) 1 = Inr ref_day
           \<and> EJECUTIVO r = ej_EJECUTIVO e \<and> Supervisor r = ej_Supervisor e
           \<and> CentroKey r = ej_CentroKey e \<and> m_status r = ACTIVO
           \<and> dias_activo_al_1ro r = tenure_days ref_day (ej_ingreso e)
           \<and> last3 r = map int (ej_ventas e)
           \<and> ej_ventas e \<noteq> []
           \<and> prom_ult_3m r = rolling_average (ej_ventas e)
           \<and> meta_mes_actual r = quota_policy (dias_activo_al_1ro r) (prom_ult_3m r)"
proof -
  define act where "act = filter (\<lambda>e. status_of (int (ej_ventas_mes e)) = ACTIVO) df"
  show ?thesis
  proof (cases "act = []")
    case True
    with assms show ?thesis by (simp add: df_metas_view_def act_def)
  next
    case False
    from assms(1) False obtain ref_day avg where
      rd: "date_new (fst mk) (snd mk) 1 = Inr ref_day"
      and av: "collect (map (\<lambda>e. prom_row (map int (ej_ventas e))) act) = Inr avg"
      by (auto simp: df_metas_view_def act_def Let_def split: sum.splits)
    define ten where "ten = map (\<lambda>e. tenure_days ref_day (ej_ingreso e)) act"
    define prom where "prom = map snd avg"
    have la: "length avg = length act"
      using collect_length [OF av] by simp
    then have len: "length prom = length ten"
      by (simp add: prom_def ten_def)
    from assms False rd av obtain i where i: "i < length act"
      and r: "r = \<lparr>EJECUTIVO = ej_EJECUTIVO (act ! i), Supervisor = ej_Supervisor (act ! i),
                   CentroKey = ej_CentroKey (act ! i), m_status = ACTIVO,
                   dias_activo_al_1ro = ten ! i, last3 = map int (ej_ventas (act ! i)),
                   prom_ult_3m = prom ! i, meta_mes_actual = meta_mes ten prom ! i\<rparr>"
      by (auto simp: df_metas_view_def act_def [symmetric] Let_def ten_def prom_def)
    have mem: "act ! i \<in> set act" using i by simp
    then have e: "act ! i \<in> set df" "ej_ventas_mes (act ! i) > 0"
      by (auto simp: act_def status_of_def split: if_splits)
    have "prom_row (map int (ej_ventas (act ! i))) = Inr (avg ! i)"
      using collect_nth [OF av, of i] i by simp
    then have "prom_row (map int (ej_ventas (act ! i))) = Inr (fst (avg ! i), prom ! i)"
      using i la by (simp add: prom_def)
    from prom_row_Inr [OF this]
    have p: "ej_ventas (act ! i) \<noteq> []" "prom ! i = rolling_average (ej_ventas (act ! i))"
      by simp_all
    have q: "meta_mes ten prom ! i = quota_policy (ten ! i) (prom ! i)"
      using meta_mes_nth [OF len, of i] i by (simp add: ten_def)
    have t: "ten ! i = tenure_days ref_day (ej_ingreso (act ! i))"
      using i by (simp add: ten_def)
    show ?thesis
      using e rd p q t by (intro exI [of _ "act ! i"] exI [of _ ref_day]) (simp add: r)
  qed
qed

lemma df_sim_row:
  assumes "df_sim lm df = Inr (rows, tot)" "r \<in> set rows"
  shows "\<exists>e ref_day. e \<in> set df \<and> ref_day_sim lm = Inr ref_day
           \<and> s_EJECUTIVO r = ej_EJECUTIVO e \<and> s_Supervisor r = ej_Supervisor e
           \<and> ej_ventas e \<noteq> []
           \<and> s_status r = status_of (int (last (ej_ventas e)))
           \<and> s_dias_activo_al_1ro r = tenure_days ref_day (ej_ingreso e)
           \<and> s_meses r = map int (ej_ventas e)
           \<and> s_Promedio_ventas_meses r = rolling_average (ej_ventas e)
           \<and> meta_simulacion r =
               (if s_status r = BAJA then 0
                else quota_policy (s_dias_activo_al_1ro r) (s_Promedio_ventas_meses r))"
proof (cases "df = []")
  case True
  with assms show ?thesis by (simp add: df_sim_def)
next
  case False
  from assms(1) False obtain ref_day avg where
    av: "collect (map (\<lambda>e. prom_row (map int (ej_ventas e))) df) = Inr avg"
    and ne: "\<not> list_ex (\<lambda>e. ej_ventas e = []) df"
    and rd: "ref_day_sim lm = Inr ref_day"
    by (auto simp: df_sim_def Let_def split: sum.splits if_splits)
  define ten where "ten = map (\<lambda>e. tenure_days ref_day (ej_ingreso e)) df"
  define prom where "prom = map snd avg"
  define stat where "stat = map (\<lambda>e. status_of (int (last (ej_ventas e)))) df"
  have la: "length avg = length df"
    using collect_length [OF av] by simp
  then have len: "length prom = length ten"
    by (simp add: prom_def ten_def)
  from assms False rd av ne obtain i where i: "i < length df"
    and r: "r = \<lparr>s_EJECUTIVO = ej_EJECUTIVO (df ! i), s_Supervisor = ej_Supervisor (df ! i),
                 s_status = stat ! i, s_dias_activo_al_1ro = ten ! i,
                 s_meses = map int (ej_ventas (df ! i)),
                 s_Total_ventas = sum_list (map int (ej_ventas (df ! i))),
                 s_Promedio_ventas_meses = prom ! i,
                 meta_simulacion = (if stat ! i = BAJA then 0 else meta_mes ten prom ! i)\<rparr>"
    by (auto simp: df_sim_def Let_def ten_def prom_def stat_def)
  have mem: "df ! i \<in> set df" using i by simp
  have "prom_row (map int (ej_ventas (df ! i))) = Inr (avg ! i)"
    using collect_nth [OF av, of i] i by simp
  then have "prom_row (map int (ej_ventas (df ! i))) = Inr (fst (avg ! i), prom ! i)"
    using i la by (simp add: prom_def)
  from prom_row_Inr [OF this]
  have p: "ej_ventas (df ! i) \<noteq> []" "prom ! i = rolling_average (ej_ventas (df ! i))"
    by simp_all
  have q: "meta_mes ten prom ! i = quota_policy (ten ! i) (prom ! i)"
    using meta_mes_nth [OF len, of i] i by (simp add: ten_def)
  have t: "ten ! i = tenure_days ref_day (ej_ingreso (df ! i))"
      "stat ! i = status_of (int (last (ej_ventas (df ! i))))"
    using i by (simp_all add: ten_def stat_def)
  show ?thesis
    using mem rd p q t by (intro exI [of _ "df ! i"] exI [of _ ref_day]) (simp add: r)
qed


lemma df_metas_view_ana: "df_metas_view (2026, 1) [ana, beto] = Inr [ana_row]"
  by code_simp

lemma df_sim_ana_beto: "df_sim (2025, 12) [ana, beto] = Inr ([ana_sim, beto_sim], 8)"
  by code_simp

subsection \<open>The quota policy\<close>



subsection \<open>The rolling average\<close>

text \<open>
  Claim C3. For a window of at least one month with the zero-filled counts of one
  executive in chronological order, the code returns the flag "some month is nonzero"
  and the average: 0 when every count is zero (the flag is then false), otherwise the
  sum of the counts from the first nonzero month to the end of the window divided by
  the number of those months, later zeros included. The window [0, 0, 5, 3] gives 4.
\<close>

theorem rolling_average_from_first_nonzero:
  "(counts \<noteq> [] \<longrightarrow>
      prom_row (map int counts)
        = Inr (\<not> list_all (\<lambda>c. c = 0) counts,
               if list_all (\<lambda>c. c = 0) counts then 0
               else of_nat (sum_list (drop (first_nonzero counts) counts))
                      / of_nat (length counts - first_nonzero counts)))
   \<and> prom_row [0, 0, 5, 3] = Inr (True, 4)"
proof (intro conjI impI)
  assume "counts \<noteq> []"
  then show "prom_row (map int counts)
        = Inr (\<not> list_all (\<lambda>c. c = 0) counts,
               if list_all (\<lambda>c. c = 0) counts then 0
               else of_nat (sum_list (drop (first_nonzero counts) counts))
                      / of_nat (length counts - first_nonzero counts))"
    using prom_row_eq [of counts] by (simp add: rolling_average_def)
next
  show "prom_row [0, 0, 5, 3] = Inr (True, 4)"
    using prom_row_eq [of "[0, 0, 5, 3]"] by (simp add: rolling_average_def)
qed

theorem rolling_average_from_first_nonzero_witness:
  "[0, 7, 0 :: nat] \<noteq> [] \<and> first_nonzero [0, 7, 0] = 1
   \<and> prom_row (map int [0, 7, 0]) = Inr (True, 7 / 2)
   \<and> prom_row (map int [0, 0, 0]) = Inr (False, 0)"
  using rolling_average_from_first_nonzero [of "[0, 7, 0]"]
    rolling_average_from_first_nonzero [of "[0, 0, 0]"]
  by simp

subsection \<open>Inactive executives\<close>

lemma df_sim_total:
  assumes "df_sim lm df = Inr (rows, tot)"
  shows "tot = sum_list (map meta_simulacion rows)"
proof (cases "df = []")
  case True
  with assms show ?thesis by (simp add: df_sim_def)
next
  case False
  from assms False obtain ref_day avg where
    av: "collect (map (\<lambda>e. prom_row (map int (ej_ventas e))) df) = Inr avg"
    and ne: "\<not> list_ex (\<lambda>e. ej_ventas e = []) df"
    and rd: "ref_day_sim lm = Inr ref_day"
    by (auto simp: df_sim_def Let_def split: sum.splits if_splits)
  define meta where "meta = map (\<lambda>i.
      if map (\<lambda>e. status_of (int (last (ej_ventas e)))) df ! i = BAJA then 0
      else meta_mes (map (\<lambda>e. tenure_days ref_day (ej_ingreso e)) df) (map snd avg) ! i)
    [0..<length df]"
  have len: "length meta = length df" by (simp add: meta_def)
  from assms False av ne rd have tot: "tot = sum_list meta"
    and rows: "map meta_simulacion rows = map (\<lambda>i. meta ! i) [0..<length df]"
    by (auto simp: df_sim_def Let_def comp_def meta_def)
  have "map (\<lambda>i. meta ! i) [0..<length meta] = meta" by (rule map_nth)
  with len rows tot show ?thesis by simp
qed

lemma status_cases: "st = ACTIVO \<or> st = BAJA"
  by (cases st) simp_all

text \<open>
  Claim C4. In the simulation table every executive whose status is BAJA has quota 0,
  whatever the tenure and the average, and the total \<open>meta_total_all\<close> is the sum of
  the quotas of the ACTIVO rows alone. The month table keeps ACTIVO executives only:
  it is the table of the input without its inactive executives, so these contribute to
  no row and to no total built from it.
\<close>

theorem inactive_quota_is_zero:
  "(df_sim lm df = Inr (srows, tot) \<and> s \<in> set srows \<and> s_status s = BAJA \<longrightarrow>
      meta_simulacion s = 0)
   \<and> (df_sim lm df = Inr (srows, tot) \<longrightarrow>
        tot = sum_list (map meta_simulacion (filter (\<lambda>s. s_status s = ACTIVO) srows)))
   \<and> (df_metas_view mk df' = Inr rows \<and> r \<in> set rows \<longrightarrow> m_status r = ACTIVO)
   \<and> df_metas_view mk df'
       = df_metas_view mk (filter (\<lambda>e. status_of (int (ej_ventas_mes e)) = ACTIVO) df')"
proof (intro conjI impI)
  assume "df_sim lm df = Inr (srows, tot) \<and> s \<in> set srows \<and> s_status s = BAJA"
  then show "meta_simulacion s = 0"
    using df_sim_row [of lm df srows tot s] by auto
next
  assume a: "df_sim lm df = Inr (srows, tot)"
  have "\<And>x. x \<in> set srows \<Longrightarrow> \<not> s_status x = ACTIVO \<Longrightarrow> meta_simulacion x = 0"
  proof -
    fix x assume x: "x \<in> set srows" "\<not> s_status x = ACTIVO"
    then have "s_status x = BAJA" using status_cases [of "s_status x"] by simp
    then show "meta_simulacion x = 0" using df_sim_row [OF a x(1)] by auto
  qed
  then have "sum_list (map meta_simulacion (filter (\<lambda>s. s_status s = ACTIVO) srows))
               = sum_list (map meta_simulacion srows)"
    by (rule sum_list_map_filter)
  then show "tot = sum_list (map meta_simulacion (filter (\<lambda>s. s_status s = ACTIVO) srows))"
    using df_sim_total [OF a] by simp
next
  assume "df_metas_view mk df' = Inr rows \<and> r \<in> set rows"
  then show "m_status r = ACTIVO"
    using df_metas_view_row [of mk df' rows r] by blast
next
  show "df_metas_view mk df'
          = df_metas_view mk (filter (\<lambda>e. status_of (int (ej_ventas_mes e)) = ACTIVO) df')"
    by (simp add: df_metas_view_def)
qed

theorem inactive_quota_is_zero_witness:
  "df_sim (2025, 12) [ana, beto] = Inr ([ana_sim, beto_sim], 8)
   \<and> beto_sim \<in> set [ana_sim, beto_sim] \<and> s_status beto_sim = BAJA
   \<and> meta_simulacion beto_sim = 0
   \<and> quota_policy (s_dias_activo_al_1ro beto_sim) (s_Promedio_ventas_meses beto_sim) = 7
   \<and> (8 :: int) = sum_list (map meta_simulacion
                     (filter (\<lambda>s. s_status s = ACTIVO) [ana_sim, beto_sim]))
   \<and> df_metas_view (2026, 1) [ana, beto] = Inr [ana_row] \<and> ana_row \<in> set [ana_row]
   \<and> m_status ana_row = ACTIVO
   \<and> status_of (int (ej_ventas_mes beto)) = BAJA
   \<and> df_metas_view (2026, 1) [ana, beto] = df_metas_view (2026, 1) [ana]"
  using inactive_quota_is_zero
    [of "(2025, 12)" "[ana, beto]" "[ana_sim, beto_sim]" 8 beto_sim "(2026, 1)"
        "[ana, beto]" "[ana_row]" ana_row]
    df_metas_view_ana df_sim_ana_beto
  by (simp add: beto_sim_def ana_sim_def ana_row_def ana_def beto_def status_of_def
      quota_policy_def)

subsection \<open>The delivery split\<close>

lemma sum_list_indicator:
  "sum_list (map (\<lambda>r. if P r then 1 else 0 :: int) xs) = int (length (filter P xs))"
  by (induction xs) auto

lemma venta_vacia_blank: "venta_vacia U x = venta_blank U x"
  by (cases x) (simp_all add: venta_blank_def Let_def)

lemma is_transito_exact: "is_transito U r = exact_in_transit U r"
  by (auto simp: is_transito_def exact_in_transit_def venta_vacia_blank)

text \<open>The table of the split, seller by seller: the three counts are numbers of
  records of the seller that are not cancellation errors.\<close>

lemma split_table:
  "load_programadas_split_by_exec U df
     = map (\<lambda>k.
         \<lparr>g_VENDEDOR = k,
          hechas_mes = int (length (filter (\<lambda>r. seller U r = k
                                \<and> \<not> is_canc U r \<and> \<not> is_transito U r) df)),
          transito_mes = int (length (filter (\<lambda>r. seller U r = k
                                \<and> \<not> is_canc U r \<and> is_transito U r) df)),
          total_mes = int (length (filter (\<lambda>r. seller U r = k \<and> \<not> is_canc U r) df)),
          VEN_NORM = normalize_name U (Some k)\<rparr>)
       (sort (remdups (map (seller U) (filter (\<lambda>r. \<not> is_canc U r) df))))"
proof -
  define kept where "kept = filter (\<lambda>r. \<not> is_canc U r) df"
  define f where "f = (\<lambda>r. (seller U r, (if is_transito U r then 1 else 0 :: int),
                            (if \<not> is_transito U r then 1 else 0 :: int)))"
  have grp: "filter (\<lambda>w. fst w = k) (map f kept) = map f (filter (\<lambda>r. seller U r = k) kept)"
    for k by (simp add: filter_map comp_def f_def)
  have h: "sum_list (map (\<lambda>w. snd (snd w)) (filter (\<lambda>w. fst w = k) (map f kept)))
             = int (length (filter (\<lambda>r. seller U r = k \<and> \<not> is_canc U r
                                      \<and> \<not> is_transito U r) df))" for k
  proof -
    have "filter (\<lambda>r. \<not> is_transito U r) (filter (\<lambda>r. seller U r = k) kept)
            = filter (\<lambda>r. seller U r = k \<and> \<not> is_canc U r \<and> \<not> is_transito U r) df"
      by (auto simp: kept_def intro: filter_cong)
    then show ?thesis
      unfolding grp by (simp add: comp_def f_def sum_list_indicator)
  qed
  have t: "sum_list (map (\<lambda>w. fst (snd w)) (filter (\<lambda>w. fst w = k) (map f kept)))
             = int (length (filter (\<lambda>r. seller U r = k \<and> \<not> is_canc U r
                                      \<and> is_transito U r) df))" for k
  proof -
    have "filter (\<lambda>r. is_transito U r) (filter (\<lambda>r. seller U r = k) kept)
            = filter (\<lambda>r. seller U r = k \<and> \<not> is_canc U r \<and> is_transito U r) df"
      by (auto simp: kept_def intro: filter_cong)
    then show ?thesis
      unfolding grp by (simp add: comp_def f_def sum_list_indicator)
  qed
  have tot: "int (length (filter (\<lambda>r. seller U r = k \<and> \<not> is_canc U r) df))
               = int (length (filter (\<lambda>r. seller U r = k \<and> \<not> is_canc U r
                                        \<and> \<not> is_transito U r) df))
                 + int (length (filter (\<lambda>r. seller U r = k \<and> \<not> is_canc U r
                                          \<and> is_transito U r) df))" for k
  proof -
    let ?P = "\<lambda>r. seller U r = k \<and> \<not> is_canc U r"
    have "length (filter ?P df)
            = length (filter (\<lambda>r. is_transito U r) (filter ?P df))
              + length (filter (\<lambda>r. \<not> is_transito U r) (filter ?P df))"
      by (rule sum_length_filter_compl [symmetric])
    also have "filter (\<lambda>r. is_transito U r) (filter ?P df)
                 = filter (\<lambda>r. seller U r = k \<and> \<not> is_canc U r \<and> is_transito U r) df"
      by (auto intro: filter_cong)
    also have "filter (\<lambda>r. \<not> is_transito U r) (filter ?P df)
                 = filter (\<lambda>r. seller U r = k \<and> \<not> is_canc U r \<and> \<not> is_transito U r) df"
      by (auto intro: filter_cong)
    finally show ?thesis by simp
  qed
  have keys: "map fst (map f kept) = map (seller U) kept"
    by (simp add: f_def comp_def)
  show ?thesis
  proof (cases "df = []")
    case True
    then show ?thesis by (simp add: load_programadas_split_by_exec_def)
  next
    case False
    then have "load_programadas_split_by_exec U df
        = map (\<lambda>k.
            \<lparr>g_VENDEDOR = k,
             hechas_mes = sum_list (map (\<lambda>w. snd (snd w))
                             (filter (\<lambda>w. fst w = k) (map f kept))),
             transito_mes = sum_list (map (\<lambda>w. fst (snd w))
                             (filter (\<lambda>w. fst w = k) (map f kept))),
             total_mes = sum_list (map (\<lambda>w. snd (snd w))
                             (filter (\<lambda>w. fst w = k) (map f kept)))
                         + sum_list (map (\<lambda>w. fst (snd w))
                             (filter (\<lambda>w. fst w = k) (map f kept))),
             VEN_NORM = normalize_name U (Some k)\<rparr>)
          (sort (remdups (map fst (map f kept))))"
      by (simp add: load_programadas_split_by_exec_def Let_def kept_def f_def seller_def)
    then show ?thesis
      unfolding h t keys tot by (simp add: kept_def)
  qed
qed

lemma split_row_counts:
  assumes "g \<in> set (load_programadas_split_by_exec U df)"
  shows "hechas_mes g = int (length (filter (\<lambda>r. seller U r = g_VENDEDOR g
                               \<and> \<not> is_canc U r \<and> \<not> is_transito U r) df))
       \<and> transito_mes g = int (length (filter (\<lambda>r. seller U r = g_VENDEDOR g
                               \<and> \<not> is_canc U r \<and> is_transito U r) df))
       \<and> total_mes g = int (length (filter (\<lambda>r. seller U r = g_VENDEDOR g
                               \<and> \<not> is_canc U r) df))"
  using assms unfolding split_table [of U df] by auto


lemma split_ignores_canc:
  "load_programadas_split_by_exec U df
     = load_programadas_split_by_exec U (filter (\<lambda>r. \<not> is_canc U r) df)"
  by (simp add: load_programadas_split_by_exec_def Let_def)

subsection \<open>Evaluating strings on the database \<open>latin1\<close>\<close>

lemma latin1_isspace:
  "isspace latin1 c = (c \<in> set [9, 10, 11, 12, 13, 28, 29, 30, 31, 32, 133, 160, 5760,
                    8192, 8193, 8194, 8195, 8196, 8197, 8198, 8199, 8200, 8201, 8202,
                    8232, 8233, 8239, 8287, 12288])"
  by (simp add: latin1_def)

lemma latin1_toupper:
  "toupper latin1 c =
     (if (97 \<le> c \<and> c \<le> 122) \<or> (224 \<le> c \<and> c \<le> 254 \<and> c \<noteq> 247) then [c - 32]
      else if c = 181 then [924] else if c = 223 then [83, 83]
      else if c = 255 then [376] else if c = 956 then [924] else [c])"
  by (simp add: latin1_def)

lemma latin1_tolower:
  "tolower latin1 c =
     (if (65 \<le> c \<and> c \<le> 90) \<or> (192 \<le> c \<and> c \<le> 222 \<and> c \<noteq> 215) then [c + 32]
      else if c = 376 then [255] else if c = 924 then [956] else [c])"
  by (simp add: latin1_def)

lemma latin1_isdigit:
  "isdigit latin1 c = ((48 \<le> c \<and> c \<le> 57) \<or> c = 178 \<or> c = 179 \<or> c = 185)"
  by (simp add: latin1_def)

lemma latin1_ascii:
  assumes "c < 160"
  shows "decomposition latin1 c = [c]" "combining latin1 c = 0"
proof -
  have "map_of latin1_decomposition c = None"
    using assms by (simp add: latin1_decomposition_def)
  then show "decomposition latin1 c = [c]" by (simp add: latin1_def)
  show "combining latin1 c = 0" using assms by (simp add: latin1_def)
qed

lemmas str_eval =
  py_def strip_def upper_def lower_def split_def nfkd_def normalize_name_def Let_def
  latin1_isspace latin1_toupper latin1_tolower latin1_isdigit latin1_ascii

lemma sample_status:
  "est_norm latin1 entrega_parcial = py ''EN ENTREGA PARCIAL''"
  "est_norm latin1 en_entrega = py ''EN ENTREGA''"
  "est_norm latin1 entregado_sin_venta = py ''ENTREGADO''"
  "est_norm latin1 entregado = py ''ENTREGADO''"
  "est_norm latin1 canc_error = py ''CANC ERROR''"
  by (simp_all add: str_eval est_norm_def entrega_parcial_def en_entrega_def
      entregado_sin_venta_def entregado_def canc_error_def)

lemma sample_seller:
  "seller latin1 entrega_parcial = py ''Ana''" "seller latin1 en_entrega = py ''Ana''"
  "seller latin1 entregado_sin_venta = py ''Ana''" "seller latin1 entregado = py ''Ana''"
  "seller latin1 canc_error = py ''Ana''"
  by (simp_all add: str_eval seller_def entrega_parcial_def en_entrega_def
      entregado_sin_venta_def entregado_def canc_error_def)

lemma sample_venta:
  "venta_blank latin1 (VENTA entregado_sin_venta)" "\<not> venta_blank latin1 (VENTA entregado)"
  by (simp_all add: str_eval venta_blank_def entregado_sin_venta_def entregado_def)

lemma sample_canc:
  "is_canc latin1 canc_error" "\<not> is_canc latin1 entrega_parcial"
  "\<not> is_canc latin1 en_entrega" "\<not> is_canc latin1 entregado_sin_venta"
  "\<not> is_canc latin1 entregado"
  by (simp_all add: is_canc_def sample_status) (simp_all add: py_def)

lemma sample_exact:
  "\<not> exact_in_transit latin1 entrega_parcial" "exact_in_transit latin1 en_entrega"
  "exact_in_transit latin1 entregado_sin_venta" "\<not> exact_in_transit latin1 entregado"
  by (simp_all add: exact_in_transit_def sample_status sample_venta) (simp_all add: py_def)

lemma sample_transito:
  "\<not> is_transito latin1 entrega_parcial" "is_transito latin1 en_entrega"
  "is_transito latin1 entregado_sin_venta" "\<not> is_transito latin1 entregado"
  by (simp_all add: is_transito_exact sample_exact)

lemma ana_norm: "normalize_name latin1 (Some (py ''Ana'')) = py ''ANA''"
  by (simp add: str_eval)



lemma split_five:
  "load_programadas_split_by_exec latin1
       [entrega_parcial, en_entrega, entregado_sin_venta, entregado, canc_error]
     = [\<lparr>g_VENDEDOR = py ''Ana'', hechas_mes = 2, transito_mes = 2, total_mes = 4,
         VEN_NORM = py ''ANA''\<rparr>]"
  by (simp add: split_table sample_seller sample_canc sample_transito ana_norm)

lemma split_four:
  "load_programadas_split_by_exec latin1
       [entrega_parcial, en_entrega, entregado_sin_venta, entregado]
     = [\<lparr>g_VENDEDOR = py ''Ana'', hechas_mes = 2, transito_mes = 2, total_mes = 4,
         VEN_NORM = py ''ANA''\<rparr>]"
  by (simp add: split_table sample_seller sample_canc sample_transito ana_norm)





text \<open>
  Claim C8. A record whose normalized status is CANC ERROR is left out before the
  classification: every count of the split (completed, in transit, total) is a number
  of records that are not cancellation errors, the total being the sum of the other
  two, and inserting a cancellation-error record anywhere in the input leaves the whole
  split unchanged.
\<close>

theorem canc_error_excluded:
  "(g \<in> set (load_programadas_split_by_exec U df) \<longrightarrow>
      hechas_mes g = int (length (filter (\<lambda>r. seller U r = g_VENDEDOR g
                               \<and> \<not> is_canc U r \<and> \<not> is_transito U r) df))
      \<and> transito_mes g = int (length (filter (\<lambda>r. seller U r = g_VENDEDOR g
                               \<and> \<not> is_canc U r \<and> is_transito U r) df))
      \<and> total_mes g = int (length (filter (\<lambda>r. seller U r = g_VENDEDOR g
                               \<and> \<not> is_canc U r) df)))
   \<and> (is_canc U c \<longrightarrow>
        load_programadas_split_by_exec U (xs @ c # ys)
          = load_programadas_split_by_exec U (xs @ ys))"
proof (intro conjI impI)
  assume g: "g \<in> set (load_programadas_split_by_exec U df)"
  show "hechas_mes g = int (length (filter (\<lambda>r. seller U r = g_VENDEDOR g
                               \<and> \<not> is_canc U r \<and> \<not> is_transito U r) df))"
    and "transito_mes g = int (length (filter (\<lambda>r. seller U r = g_VENDEDOR g
                               \<and> \<not> is_canc U r \<and> is_transito U r) df))"
    and "total_mes g = int (length (filter (\<lambda>r. seller U r = g_VENDEDOR g
                               \<and> \<not> is_canc U r) df))"
    using split_row_counts [OF g] by simp_all
next
  assume "is_canc U c"
  then have "filter (\<lambda>r. \<not> is_canc U r) (xs @ c # ys) = filter (\<lambda>r. \<not> is_canc U r) (xs @ ys)"
    by simp
  then show "load_programadas_split_by_exec U (xs @ c # ys)
          = load_programadas_split_by_exec U (xs @ ys)"
    using split_ignores_canc [of U "xs @ c # ys"] split_ignores_canc [of U "xs @ ys"]
    by simp
qed

theorem canc_error_excluded_witness:
  "\<lparr>g_VENDEDOR = py ''Ana'', hechas_mes = 2, transito_mes = 2, total_mes = 4,
     VEN_NORM = py ''ANA''\<rparr>
     \<in> set (load_programadas_split_by_exec latin1
              [entrega_parcial, en_entrega, entregado_sin_venta, entregado, canc_error])
   \<and> (4 :: int) = int (length (filter (\<lambda>r. seller latin1 r = py ''Ana'' \<and> \<not> is_canc latin1 r)
                    [entrega_parcial, en_entrega, entregado_sin_venta, entregado, canc_error]))
   \<and> is_canc latin1 canc_error
   \<and> load_programadas_split_by_exec latin1
        ([entrega_parcial, en_entrega, entregado_sin_venta, entregado] @ canc_error # [])
       = load_programadas_split_by_exec latin1
           ([entrega_parcial, en_entrega, entregado_sin_venta, entregado] @ [])"
  using canc_error_excluded
    [of "\<lparr>g_VENDEDOR = py ''Ana'', hechas_mes = 2, transito_mes = 2, total_mes = 4,
          VEN_NORM = py ''ANA''\<rparr>"
        latin1
        "[entrega_parcial, en_entrega, entregado_sin_venta, entregado, canc_error]"
        canc_error "[entrega_parcial, en_entrega, entregado_sin_venta, entregado]" "[]"]
    split_five split_four
  by (simp add: sample_canc sample_seller)

subsection \<open>The join key\<close>

lemma strip_chars_empty_iff: "strip_chars cs s = [] \<longleftrightarrow> list_all (\<lambda>c. c \<in> set cs) s"
proof -
  define P where "P = (\<lambda>c. c \<in> set cs)"
  define t where "t = dropWhile P s"
  have 1: "(dropWhile P (rev t) = []) = (\<forall>x \<in> set t. P x)"
    by (simp only: dropWhile_eq_Nil_conv set_rev)
  have 2: "(\<forall>x \<in> set t. P x) = (t = [])"
  proof
    assume a: "\<forall>x \<in> set t. P x"
    show "t = []"
    proof (rule ccontr)
      assume ne: "t \<noteq> []"
      then have "\<not> P (hd t)" unfolding t_def by (rule hd_dropWhile)
      moreover have "hd t \<in> set t" using ne by (rule hd_in_set)
      ultimately show False using a by blast
    qed
  next
    assume "t = []"
    then show "\<forall>x \<in> set t. P x" by simp
  qed
  have 3: "(t = []) = (\<forall>x \<in> set s. P x)"
    unfolding t_def by (simp only: dropWhile_eq_Nil_conv)
  have "strip_chars cs s = rev (dropWhile P (rev t))"
    by (simp only: strip_chars_def P_def t_def)
  then have "(strip_chars cs s = []) = (\<forall>x \<in> set s. P x)"
    using 1 2 3 by (simp only: rev_is_Nil_conv)
  then show ?thesis by (simp only: list_all_iff P_def)
qed

lemma split_first_snd:
  "snd (split_first c s) = drop (Suc (length (takeWhile (\<lambda>x. x \<noteq> c) s))) s"
proof -
  have "dropWhile (\<lambda>x. x \<noteq> c) s = drop (length (takeWhile (\<lambda>x. x \<noteq> c) s)) s"
    by (rule dropWhile_eq_drop)
  then show ?thesis by (simp add: split_first_def)
qed

lemma folio_key_examples:
  "normalize_folio_key latin1 (Some (py ''4412.0'')) = py ''4412''"
  "normalize_folio_key latin1 (Some (py ''4412'')) = py ''4412''"
  "normalize_folio_key latin1 (Some (py ''abc'')) = py ''abc''"
  "normalize_folio_key latin1 (Some (py '''')) = py ''''"
  "normalize_folio_key latin1 (Some (py ''nan'')) = py ''''"
  "normalize_folio_key latin1 (Some (py '' None '')) = py ''''"
  "normalize_folio_key latin1 (Some (py ''4412.000'')) = py ''4412''"
  "normalize_folio_key latin1 (Some (py ''abc.00'')) = py ''abc.00''"
  by (simp_all add: normalize_folio_key_def str_eval endswith_def isdigit_str_def
      split_first_def strip_chars_def)

text \<open>
  Claim C9, as the specification states it, fails on the code: \<open>abc.00\<close> contains a
  decimal point whose fractional part is all zeros, so the stated rule drops the point
  and the fraction, while the code returns the string unchanged.
\<close>

theorem fraction_kept_after_letters:
  "normalize_folio_key latin1 (Some (py ''abc.00'')) = py ''abc.00''
   \<and> join_key_as_stated latin1 (Some (py ''abc.00'')) = py ''abc''"
  by (simp add: folio_key_examples)
     (simp add: join_key_as_stated_def str_eval endswith_def isdigit_str_def)

text \<open>
  Claim C9, amended. \<open>normalize_folio_key\<close> maps null, the empty string and the
  placeholders \<open>nan\<close> and \<open>none\<close> (in any case, after trimming) to the empty string;
  any other input is trimmed and then: if it ends in \<open>.0\<close> after a prefix of digits
  only, the suffix is dropped; else if it contains a decimal point, the part before the
  first point is not empty and has digits only, and the part after it has zeros only,
  the point and the fraction are dropped; otherwise the trimmed string is returned
  unchanged. So \<open>4412.0\<close> and \<open>4412\<close> give \<open>4412\<close>, \<open>abc\<close> stays, and the empty
  string and \<open>nan\<close> give the empty string.
\<close>

theorem folio_key_rule:
  "normalize_folio_key U x = join_key_amended U x
   \<and> normalize_folio_key latin1 (Some (py ''4412.0'')) = py ''4412''
   \<and> normalize_folio_key latin1 (Some (py ''4412'')) = py ''4412''
   \<and> normalize_folio_key latin1 (Some (py ''abc'')) = py ''abc''
   \<and> normalize_folio_key latin1 (Some (py '''')) = py ''''
   \<and> normalize_folio_key latin1 (Some (py ''nan'')) = py ''''"
proof (intro conjI)
  show "normalize_folio_key U x = join_key_amended U x"
  proof (cases x)
    case None
    then show ?thesis by (simp add: normalize_folio_key_def join_key_amended_def)
  next
    case (Some t)
    have z: "(strip_chars (py ''0'') r = []) = list_all (\<lambda>c. c = 48) r" for r
      by (simp add: strip_chars_empty_iff py_def)
    show ?thesis
      unfolding Some normalize_folio_key_def join_key_amended_def
      by (simp add: Let_def z split_first_snd) (simp add: split_first_def)
  qed
qed (simp_all add: folio_key_examples)

theorem folio_key_rule_witness:
  "normalize_folio_key latin1 (Some (py '' 4412.000 ''))
     = join_key_amended latin1 (Some (py '' 4412.000 ''))
   \<and> join_key_amended latin1 (Some (py '' 4412.000 '')) = py ''4412''
   \<and> join_key_amended latin1 (Some (py ''abc.00'')) = py ''abc.00''"
  using folio_key_rule [of latin1 "Some (py '' 4412.000 '')"]
  by (simp add: join_key_amended_def str_eval endswith_def isdigit_str_def)

subsection \<open>\<open>normalize_name\<close> applied twice\<close>

lemma filter_canonical_order:
  assumes "\<forall>c \<in> set run. combining U c \<noteq> 0"
  shows "filter (\<lambda>c. combining U c = 0) (canonical_order U run s)
           = filter (\<lambda>c. combining U c = 0) s"
  using assms
proof (induction s arbitrary: run)
  case Nil
  have "filter (\<lambda>c. combining U c = 0) (sort_key (combining U) run)
          = sort_key (combining U) (filter (\<lambda>c. combining U c = 0) run)"
    by (rule filter_sort)
  moreover have "filter (\<lambda>c. combining U c = 0) run = []"
    using Nil by (simp add: filter_empty_conv)
  ultimately show ?case by simp
next
  case (Cons c cs)
  have "filter (\<lambda>c. combining U c = 0) (sort_key (combining U) run)
          = sort_key (combining U) (filter (\<lambda>c. combining U c = 0) run)"
    by (rule filter_sort)
  moreover have "filter (\<lambda>c. combining U c = 0) run = []"
    using Cons.prems by (simp add: filter_empty_conv)
  ultimately have run: "filter (\<lambda>c. combining U c = 0) (sort_key (combining U) run) = []"
    by simp
  show ?case
  proof (cases "combining U c = 0")
    case True
    have "filter (\<lambda>c. combining U c = 0) (canonical_order U [] cs)
            = filter (\<lambda>c. combining U c = 0) cs"
      by (rule Cons.IH) simp
    with True run show ?thesis by simp
  next
    case False
    have "filter (\<lambda>c. combining U c = 0) (canonical_order U (run @ [c]) cs)
            = filter (\<lambda>c. combining U c = 0) cs"
      by (rule Cons.IH) (use Cons.prems False in auto)
    with False show ?thesis by simp
  qed
qed

lemma canonical_order_no_marks:
  "\<forall>c \<in> set s. combining U c = 0 \<Longrightarrow> canonical_order U [] s = s"
  by (induction s) simp_all

lemma strip_fixed:
  assumes "s = [] \<or> (\<not> isspace U (hd s) \<and> \<not> isspace U (last s))"
  shows "strip U s = s"
proof (cases "s = []")
  case True
  then show ?thesis by (simp add: strip_def)
next
  case False
  with assms have h: "\<not> isspace U (hd s)" and l: "\<not> isspace U (last s)" by simp_all
  from False h have 1: "dropWhile (isspace U) s = s" by (cases s) simp_all
  from False l have "\<not> isspace U (hd (rev s))" by (simp add: hd_rev)
  with False have 2: "dropWhile (isspace U) (rev s) = rev s" by (cases "rev s") simp_all
  show ?thesis by (simp add: strip_def 1 2)
qed

lemma upper_fixed: "\<forall>c \<in> set s. toupper U c = [c] \<Longrightarrow> upper U s = s"
  by (induction s) (simp_all add: upper_def)

lemma decompose_fixed:
  "\<forall>c \<in> set s. decomposition U c = [c] \<Longrightarrow> concat (map (decomposition U) s) = s"
  by (induction s) simp_all

lemma split_run_word:
  "\<forall>c \<in> set w. \<not> isspace U c \<Longrightarrow> split_run U cur (w @ rest) = split_run U (cur @ w) rest"
  by (induction w arbitrary: cur) simp_all

text \<open>Splitting the words joined by a whitespace character gives the words back.\<close>

lemma split_join:
  assumes "isspace U sp" "\<forall>w \<in> set ws. w \<noteq> [] \<and> (\<forall>c \<in> set w. \<not> isspace U c)"
  shows "split U (join [sp] ws) = ws"
  using assms(2)
proof (induction "[sp]" ws rule: join.induct)
  case 1
  then show ?case by (simp add: split_def)
next
  case (2 w)
  then have "split_run U [] (w @ []) = split_run U ([] @ w) []"
    by (intro split_run_word) simp
  with 2 show ?case by (simp add: split_def)
next
  case (3 w v vs)
  have "split_run U [] (w @ sp # join [sp] (v # vs))
          = split_run U ([] @ w) (sp # join [sp] (v # vs))"
    using 3 by (intro split_run_word) simp
  also have "\<dots> = w # split_run U [] (join [sp] (v # vs))"
    using 3 assms(1) by simp
  also have "split_run U [] (join [sp] (v # vs)) = v # vs"
    using 3 by (simp add: split_def)
  finally show ?case by (simp add: split_def)
qed

text \<open>The words of \<open>split\<close> are not empty, hold no whitespace, and come from the
  string.\<close>

lemma split_run_words:
  assumes "w \<in> set (split_run U cur s)" "\<forall>c \<in> set cur. \<not> isspace U c"
  shows "w \<noteq> [] \<and> (\<forall>c \<in> set w. \<not> isspace U c) \<and> set w \<subseteq> set cur \<union> set s"
  using assms
proof (induction s arbitrary: cur)
  case Nil
  from Nil.prems(1) have "cur \<noteq> [] \<and> w = cur"
    by (cases "cur = []") simp_all
  with Nil.prems(2) show ?case by simp
next
  case (Cons c cs)
  show ?case
  proof (cases "isspace U c")
    case sp: True
    have rest: "w \<noteq> [] \<and> (\<forall>c \<in> set w. \<not> isspace U c) \<and> set w \<subseteq> set cur \<union> set (c # cs)"
      if "w \<in> set (split_run U [] cs)"
    proof -
      have "w \<noteq> [] \<and> (\<forall>c \<in> set w. \<not> isspace U c) \<and> set w \<subseteq> set [] \<union> set cs"
        using that by (rule Cons.IH) simp
      then show ?thesis by auto
    qed
    show ?thesis
    proof (cases "cur = []")
      case True
      with Cons.prems(1) sp have "w \<in> set (split_run U [] cs)" by simp
      then show ?thesis by (rule rest)
    next
      case False
      with Cons.prems(1) sp have "w = cur \<or> w \<in> set (split_run U [] cs)" by simp
      then show ?thesis
      proof
        assume "w = cur"
        with False Cons.prems(2) show ?thesis by auto
      next
        assume "w \<in> set (split_run U [] cs)"
        then show ?thesis by (rule rest)
      qed
    qed
  next
    case False
    with Cons.prems(1) have "w \<in> set (split_run U (cur @ [c]) cs)" by simp
    moreover have "\<forall>x \<in> set (cur @ [c]). \<not> isspace U x"
      using Cons.prems(2) False by auto
    ultimately have "w \<noteq> [] \<and> (\<forall>c \<in> set w. \<not> isspace U c)
                       \<and> set w \<subseteq> set (cur @ [c]) \<union> set cs"
      by (rule Cons.IH)
    then show ?thesis by auto
  qed
qed

lemma join_ends:
  assumes "\<forall>w \<in> set ws. w \<noteq> [] \<and> \<not> isspace U (hd w) \<and> \<not> isspace U (last w)"
  shows "join sep ws = [] \<or> (\<not> isspace U (hd (join sep ws)) \<and> \<not> isspace U (last (join sep ws)))"
  using assms
proof (induction sep ws rule: join.induct)
  case (1 sep)
  then show ?case by simp
next
  case (2 sep w)
  then show ?case by simp
next
  case (3 sep w v vs)
  then have "join sep (v # vs) \<noteq> []" by (cases vs) auto
  with 3 show ?case by (auto simp: hd_append)
qed

lemma set_join: "set (join sep ws) \<subseteq> set sep \<union> \<Union> (set ` set ws)"
  by (induction sep ws rule: join.induct) auto

lemma filter_decompose_join:
  assumes "decomposition U sp = [sp]" "combining U sp = 0"
  shows "filter (\<lambda>c. combining U c = 0) (concat (map (decomposition U) (join [sp] ws)))
           = join [sp] (map (\<lambda>w. filter (\<lambda>c. combining U c = 0)
                                  (concat (map (decomposition U) w))) ws)"
  using assms by (induction "[sp]" ws rule: join.induct) simp_all

lemma normalize_name_words:
  assumes "space_ok U"
  shows "normalize_name U (Some s)
           = join [32] (map (\<lambda>w. filter (\<lambda>c. combining U c = 0)
                                 (concat (map (decomposition U) w)))
                         (split U (upper U (strip U s))))"
proof -
  have "normalize_name U (Some s)
          = filter (\<lambda>c. combining U c = 0)
              (concat (map (decomposition U) (join [32] (split U (upper U (strip U s))))))"
    by (simp add: normalize_name_def nfkd_def Let_def py_def filter_canonical_order)
  also have "\<dots> = join [32] (map (\<lambda>w. filter (\<lambda>c. combining U c = 0)
                                 (concat (map (decomposition U) w)))
                         (split U (upper U (strip U s))))"
    using assms by (intro filter_decompose_join) (simp_all add: space_ok_def)
  finally show ?thesis .
qed

text \<open>A string of stable words joined by single spaces is a fixed point.\<close>

lemma normalize_name_fixed:
  assumes "space_ok U"
    and "\<forall>w \<in> set ws. w \<noteq> [] \<and> (\<forall>c \<in> set w. stable_char U c)"
  shows "normalize_name U (Some (join [32] ws)) = join [32] ws"
proof -
  let ?t = "join [32] ws"
  have sp: "isspace U 32" "toupper U 32 = [32]" "decomposition U 32 = [32]" "combining U 32 = 0"
    using assms(1) by (simp_all add: space_ok_def)
  have words: "\<forall>w \<in> set ws. w \<noteq> [] \<and> (\<forall>c \<in> set w. \<not> isspace U c)"
    using assms(2) by (auto simp: stable_char_def)
  have chars: "\<forall>c \<in> set ?t. c = 32 \<or> stable_char U c"
    using set_join [of "[32]" ws] assms(2) by auto
  have "\<forall>w \<in> set ws. w \<noteq> [] \<and> \<not> isspace U (hd w) \<and> \<not> isspace U (last w)"
    using words by auto
  then have 1: "strip U ?t = ?t"
    by (intro strip_fixed join_ends)
  have 2: "upper U ?t = ?t"
    using chars sp by (intro upper_fixed) (auto simp: stable_char_def)
  have 3: "split U ?t = ws"
    using sp(1) words by (rule split_join)
  have 4: "map (\<lambda>w. filter (\<lambda>c. combining U c = 0) (concat (map (decomposition U) w))) ws = ws"
  proof (rule map_idI)
    fix w assume w: "w \<in> set ws"
    then have st: "\<forall>c \<in> set w. stable_char U c" using assms(2) by simp
    then have "concat (map (decomposition U) w) = w"
      by (intro decompose_fixed) (simp add: stable_char_def)
    moreover have "filter (\<lambda>c. combining U c = 0) w = w"
      using st by (simp add: stable_char_def)
    ultimately show "filter (\<lambda>c. combining U c = 0) (concat (map (decomposition U) w)) = w"
      by simp
  qed
  show ?thesis
    unfolding normalize_name_words [OF assms(1)] 1 2 3 4 ..
qed

lemma upper_chars: "d \<in> set (upper U s) \<Longrightarrow> \<exists>c \<in> set s. d \<in> set (toupper U c)"
  by (auto simp: upper_def)

lemma strip_subset: "set (strip U s) \<subseteq> set s"
proof -
  have "set (strip U s) = set (dropWhile (isspace U) (rev (dropWhile (isspace U) s)))"
    by (simp add: strip_def)
  also have "\<dots> \<subseteq> set (rev (dropWhile (isspace U) s))"
    by (rule set_dropWhileD [THEN subsetI])
  also have "\<dots> \<subseteq> set s"
    using set_dropWhileD [of _ "isspace U" s] by auto
  finally show ?thesis .
qed

lemma normalize_name_idem:
  assumes "space_ok U" "list_all (plain_char U) s"
  shows "normalize_name U (Some (normalize_name U (Some s))) = normalize_name U (Some s)"
proof -
  let ?g = "\<lambda>w. filter (\<lambda>c. combining U c = 0) (concat (map (decomposition U) w))"
  let ?ws = "split U (upper U (strip U s))"
  have "\<forall>w \<in> set (map ?g ?ws). w \<noteq> [] \<and> (\<forall>c \<in> set w. stable_char U c)"
  proof
    fix v assume "v \<in> set (map ?g ?ws)"
    then obtain w where w: "w \<in> set ?ws" and v: "v = ?g w" by auto
    from w have wp: "w \<noteq> []" "\<forall>d \<in> set w. \<not> isspace U d" "set w \<subseteq> set (upper U (strip U s))"
      using split_run_words [of w U "[]" "upper U (strip U s)"] by (auto simp: split_def)
    have good: "list_ex (\<lambda>e. combining U e = 0) (decomposition U d)
                \<and> list_all (\<lambda>e. combining U e \<noteq> 0 \<or> stable_char U e) (decomposition U d)"
      if d: "d \<in> set w" for d
    proof -
      from d wp(3) obtain c where "c \<in> set (strip U s)" "d \<in> set (toupper U c)"
        using upper_chars [of d U "strip U s"] by auto
      then have "c \<in> set s" using strip_subset [of U s] by auto
      with assms(2) have "plain_char U c" by (simp add: list_all_iff)
      with \<open>d \<in> set (toupper U c)\<close> d wp(2) show ?thesis
        by (auto simp: plain_char_def list_all_iff)
    qed
    have "v \<noteq> []"
    proof -
      from wp(1) obtain d where d: "d \<in> set w" by (cases w) auto
      from good [OF d] obtain e where "e \<in> set (decomposition U d)" "combining U e = 0"
        by (auto simp: list_ex_iff)
      with d have "e \<in> set v" unfolding v by auto
      then show ?thesis by auto
    qed
    moreover have "\<forall>e \<in> set v. stable_char U e"
    proof
      fix e assume "e \<in> set v"
      then obtain d where d: "d \<in> set w" and e: "e \<in> set (decomposition U d)"
        "combining U e = 0"
        unfolding v by auto
      with good [OF d] show "stable_char U e" by (auto simp: list_all_iff)
    qed
    ultimately show "v \<noteq> [] \<and> (\<forall>c \<in> set v. stable_char U c)" by simp
  qed
  from normalize_name_fixed [OF assms(1) this] show ?thesis
    unfolding normalize_name_words [OF assms(1), of s] .
qed

subsection \<open>The plain characters of \<open>latin1\<close>\<close>

lemma latin1_decomposition_eq:
  "decomposition latin1 c = (case map_of latin1_decomposition c of None \<Rightarrow> [c] | Some d \<Rightarrow> d)"
  by (simp add: latin1_def)

lemma latin1_combining:
  "combining latin1 c =
     (if c \<in> set [768, 769, 770, 771, 772, 776, 778] then 230 else if c = 807 then 202 else 0)"
  by (simp add: latin1_def)

lemma latin1_space_ok: "space_ok latin1"
  by (simp add: space_ok_def latin1_isspace latin1_toupper latin1_ascii)

lemma latin1_stable_low:
  assumes "d < 160" "\<not> (97 \<le> d \<and> d \<le> 122)"
  shows "isspace latin1 d \<or> stable_char latin1 d"
proof -
  from assms have "toupper latin1 d = [d]"
    by (auto simp: latin1_toupper)
  with latin1_ascii [OF assms(1)] show ?thesis
    by (simp add: stable_char_def)
qed

lemma plain_char_single:
  assumes "toupper U c = [d]" "decomposition U d = [d]" "combining U d = 0"
    "isspace U d \<or> stable_char U d"
  shows "plain_char U c"
  using assms by (auto simp: plain_char_def)

lemma latin1_plain_low:
  assumes "c < 160"
  shows "plain_char latin1 c"
proof (cases "97 \<le> c \<and> c \<le> 122")
  case True
  then have up: "toupper latin1 c = [c - 32]"
    by (simp add: latin1_toupper)
  from True have d: "c - 32 < 160" "\<not> (97 \<le> c - 32 \<and> c - 32 \<le> 122)"
    by arith+
  show ?thesis
    using up latin1_ascii [OF d(1)] latin1_stable_low [OF d] by (rule plain_char_single)
next
  case False
  with assms have up: "toupper latin1 c = [c]"
    by (auto simp: latin1_toupper)
  show ?thesis
    using up latin1_ascii [OF assms] latin1_stable_low [OF assms False]
    by (rule plain_char_single)
qed

lemma latin1_plain_160_175:
  "list_all (\<lambda>c. c \<in> set [168, 170, 175, 180, 184, 186] \<or> plain_char latin1 c) [160..<176]"
  by (simp add: upt_rec_numeral plain_char_def stable_char_def latin1_toupper latin1_isspace
      latin1_decomposition_eq latin1_decomposition_def latin1_combining)

lemma latin1_plain_176_191:
  "list_all (\<lambda>c. c \<in> set [168, 170, 175, 180, 184, 186] \<or> plain_char latin1 c) [176..<192]"
  by (simp add: upt_rec_numeral plain_char_def stable_char_def latin1_toupper latin1_isspace
      latin1_decomposition_eq latin1_decomposition_def latin1_combining)

lemma latin1_plain_192_207:
  "list_all (\<lambda>c. c \<in> set [168, 170, 175, 180, 184, 186] \<or> plain_char latin1 c) [192..<208]"
  by (simp add: upt_rec_numeral plain_char_def stable_char_def latin1_toupper latin1_isspace
      latin1_decomposition_eq latin1_decomposition_def latin1_combining)

lemma latin1_plain_208_223:
  "list_all (\<lambda>c. c \<in> set [168, 170, 175, 180, 184, 186] \<or> plain_char latin1 c) [208..<224]"
  by (simp add: upt_rec_numeral plain_char_def stable_char_def latin1_toupper latin1_isspace
      latin1_decomposition_eq latin1_decomposition_def latin1_combining)

lemma latin1_plain_224_239:
  "list_all (\<lambda>c. c \<in> set [168, 170, 175, 180, 184, 186] \<or> plain_char latin1 c) [224..<240]"
  by (simp add: upt_rec_numeral plain_char_def stable_char_def latin1_toupper latin1_isspace
      latin1_decomposition_eq latin1_decomposition_def latin1_combining)

lemma latin1_plain_240_255:
  "list_all (\<lambda>c. c \<in> set [168, 170, 175, 180, 184, 186] \<or> plain_char latin1 c) [240..<256]"
  by (simp add: upt_rec_numeral plain_char_def stable_char_def latin1_toupper latin1_isspace
      latin1_decomposition_eq latin1_decomposition_def latin1_combining)

lemma latin1_plain_high:
  assumes "160 \<le> c" "c < 256" "c \<notin> set [168, 170, 175, 180, 184, 186]"
  shows "plain_char latin1 c"
proof -
  from assms(1,2) have "c \<in> set [160..<176] \<or> c \<in> set [176..<192] \<or> c \<in> set [192..<208]
      \<or> c \<in> set [208..<224] \<or> c \<in> set [224..<240] \<or> c \<in> set [240..<256]"
    unfolding set_upt atLeastLessThan_iff by arith
  then show ?thesis
    using assms(3) latin1_plain_160_175 latin1_plain_176_191 latin1_plain_192_207
      latin1_plain_208_223 latin1_plain_224_239 latin1_plain_240_255
    unfolding list_all_iff by blast
qed

lemma latin1_plain:
  assumes "c < 256" "c \<notin> set [168, 170, 175, 180, 184, 186]"
  shows "plain_char latin1 c"
proof (cases "c < 160")
  case True
  then show ?thesis by (rule latin1_plain_low)
next
  case False
  then have "160 \<le> c" by simp
  then show ?thesis using assms by (rule latin1_plain_high)
qed

lemma name_examples:
  "normalize_name latin1 (Some [77, 170]) = py ''Ma''"
  "normalize_name latin1 (Some (py ''Ma'')) = py ''MA''"
  "normalize_name latin1 (Some jose_raw) = py ''JOSE PEREZ''"
  "normalize_name latin1 (Some (py ''JOSE PEREZ'')) = py ''JOSE PEREZ''"
  by (simp_all add: str_eval latin1_decomposition_eq latin1_decomposition_def latin1_combining
      jose_raw_def)

text \<open>
  Claim C10, as stated, fails on the code: the feminine ordinal indicator (code point
  170, as in the abbreviation of Maria) has no upper case but decomposes to a lower-case
  \<open>a\<close>, so the first pass yields \<open>Ma\<close> and the second pass \<open>MA\<close>.
\<close>

theorem ordinal_indicator_not_idempotent:
  "normalize_name latin1 (Some [77, 170]) = py ''Ma''
   \<and> normalize_name latin1 (Some (py ''Ma'')) = py ''MA''
   \<and> normalize_name latin1 (Some (normalize_name latin1 (Some [77, 170])))
       \<noteq> normalize_name latin1 (Some [77, 170])"
  by (simp add: name_examples) (simp add: py_def)

text \<open>
  Claim C10, amended. \<open>normalize_name\<close> is idempotent on every string of plain
  characters, for every character database that treats the space as Unicode does: a
  character is plain when each character of its upper case is whitespace or decomposes
  (NFKD) into marks and at least one character that is not whitespace, not a mark, its
  own upper case and its own decomposition. In the Unicode database all characters
  below code point 256 are plain except the two ordinal indicators and the four spacing
  accents (code points 170, 186, 168, 175, 180, 184), so \<open>normalize_name\<close> is
  idempotent on every string of the other Latin-1 characters; it is also idempotent on
  \<open>None\<close>.
\<close>

theorem normalize_name_idempotent_on_plain:
  "(space_ok U \<and> list_all (plain_char U) s \<longrightarrow>
      normalize_name U (Some (normalize_name U (Some s))) = normalize_name U (Some s))
   \<and> (list_all (\<lambda>c. c < 256 \<and> c \<notin> set [168, 170, 175, 180, 184, 186]) t \<longrightarrow>
        normalize_name latin1 (Some (normalize_name latin1 (Some t)))
          = normalize_name latin1 (Some t))
   \<and> normalize_name U (Some (normalize_name U None)) = normalize_name U None"
proof (intro conjI impI)
  assume "space_ok U \<and> list_all (plain_char U) s"
  then show "normalize_name U (Some (normalize_name U (Some s))) = normalize_name U (Some s)"
    using normalize_name_idem [of U s] by simp
next
  assume "list_all (\<lambda>c. c < 256 \<and> c \<notin> set [168, 170, 175, 180, 184, 186]) t"
  then have "list_all (plain_char latin1) t"
    unfolding list_all_iff using latin1_plain by blast
  with latin1_space_ok
  show "normalize_name latin1 (Some (normalize_name latin1 (Some t)))
          = normalize_name latin1 (Some t)"
    by (rule normalize_name_idem)
next
  show "normalize_name U (Some (normalize_name U None)) = normalize_name U None"
    by (simp add: normalize_name_def strip_def upper_def split_def nfkd_def py_def)
qed

theorem normalize_name_idempotent_on_plain_witness:
  "space_ok latin1
   \<and> list_all (plain_char latin1) jose_raw
   \<and> list_all (\<lambda>c. c < 256 \<and> c \<notin> set [168, 170, 175, 180, 184, 186]) jose_raw
   \<and> normalize_name latin1 (Some jose_raw) = py ''JOSE PEREZ''
   \<and> normalize_name latin1 (Some (normalize_name latin1 (Some jose_raw)))
       = py ''JOSE PEREZ''"
proof -
  have r: "list_all (\<lambda>c. c < 256 \<and> c \<notin> set [168, 170, 175, 180, 184, 186]) jose_raw"
    by (simp add: py_def jose_raw_def)
  then have p: "list_all (plain_char latin1) jose_raw"
    unfolding list_all_iff using latin1_plain by blast
  show ?thesis
    using normalize_name_idempotent_on_plain [of latin1 jose_raw jose_raw] r p latin1_space_ok
    by (simp add: name_examples)
qed

end
